theory Spec2Isabelle
  imports Main "HOL-Library.Word" "HOL-Library.Sublist" "HOL-Library.Multiset"
begin

section \<open>Strings\<close>

text \<open>
  A JavaScript string is a sequence of 16-bit code units. \<open>js\<close> turns a literal of
  the source (all of them are ASCII) into that sequence; the backslash, which has no
  literal syntax here, is written as its code unit.
\<close>

type_synonym jstring = "16 word list"

definition js :: "string \<Rightarrow> jstring" where
  "js s = map (\<lambda>c. word_of_nat (of_char c)) s"

definition slash :: "16 word" where
  "slash = 0x2F"

definition backslash :: "16 word" where
  "backslash = 0x5C"

text \<open>
  \<open>String.prototype.trim\<close> strips WhiteSpace and LineTerminator code units from both
  ends: TAB, LF, VT, FF, CR, SP, NBSP, U+1680, U+2000 to U+200A, U+2028, U+2029, U+202F,
  U+205F, U+3000 and U+FEFF.
\<close>

definition whitespace_units :: "16 word list" where
  "whitespace_units =
     [0x09, 0x0A, 0x0B, 0x0C, 0x0D, 0x20, 0xA0, 0x1680,
      0x2000, 0x2001, 0x2002, 0x2003, 0x2004, 0x2005, 0x2006, 0x2007, 0x2008, 0x2009, 0x200A,
      0x2028, 0x2029, 0x202F, 0x205F, 0x3000, 0xFEFF]"

definition is_ws :: "16 word \<Rightarrow> bool" where
  "is_ws c = (c \<in> set whitespace_units)"

definition trim :: "jstring \<Rightarrow> jstring" where
  "trim s = rev (dropWhile is_ws (rev (dropWhile is_ws s)))"

text \<open>
  \<open>s.split(sep)\<close> for a separator of one code unit: the pieces between the
  separators, empty pieces included, so \<open>n\<close> separators give \<open>n + 1\<close> pieces and the
  empty string gives one empty piece.
\<close>

fun split :: "'a \<Rightarrow> 'a list \<Rightarrow> 'a list list" where
  "split sep [] = [[]]"
| "split sep (c # cs) =
     (if c = sep then [] # split sep cs
      else (case split sep cs of
              [] \<Rightarrow> [[c]]
            | seg # segs \<Rightarrow> (c # seg) # segs))"

text \<open>\<open>xs[i]\<close>: \<open>undefined\<close>, here \<open>None\<close>, outside the array.\<close>

definition at :: "'a list \<Rightarrow> int \<Rightarrow> 'a option" where
  "at xs i = (if 0 \<le> i \<and> nat i < length xs then Some (xs ! nat i) else None)"

text \<open>\<open>x || fallback\<close> on a string or \<open>undefined\<close>: the empty string is falsy.\<close>

fun or_else :: "jstring option \<Rightarrow> jstring \<Rightarrow> jstring" where
  "or_else None fb = fb"
| "or_else (Some s) fb = (if s = [] then fb else s)"

definition startsWith :: "'a list \<Rightarrow> 'a list \<Rightarrow> bool" where
  "startsWith s pre = (take (length pre) s = pre)"

text \<open>
  \<open>s.replace(pat, rep)\<close> with a string pattern: the first occurrence of \<open>pat\<close> is
  replaced, and \<open>s\<close> is returned as it is when there is none. The replacement used by
  the source, \<open>"~"\<close>, holds no \<open>$\<close> pattern.
\<close>

fun replace :: "'a list \<Rightarrow> 'a list \<Rightarrow> 'a list \<Rightarrow> 'a list" where
  "replace [] pat rep = (if pat = [] then rep else [])"
| "replace (c # cs) pat rep =
     (if startsWith (c # cs) pat then rep @ drop (length pat) (c # cs)
      else c # replace cs pat rep)"

section \<open>Project names\<close>

definition getProjectName :: "jstring \<Rightarrow> jstring" where
  "getProjectName p =
     (let parts = filter (\<lambda>s. s \<noteq> []) (split slash p)
      in or_else (at parts (int (length parts) - 1)) (js ''Unknown Project''))"

text \<open>
  The derivation in the specification's words: split on the separator, discard the empty
  segments, take the last one that remains, and fall back to a fixed label when none does.
\<close>

definition derive_name :: "jstring \<Rightarrow> jstring" where
  "derive_name p =
     (case rev (filter (\<lambda>s. s \<noteq> []) (split slash p)) of
        [] \<Rightarrow> js ''Unknown Project''
      | seg # _ \<Rightarrow> seg)"

section \<open>Display paths\<close>

text \<open>The test \<open>path.match(/^[A-Z]:\\Users\\/)\<close>.\<close>

definition drive_users :: "jstring \<Rightarrow> bool" where
  "drive_users p =
     (case p of
        [] \<Rightarrow> False
      | d # rest \<Rightarrow> 0x41 \<le> d \<and> d \<le> 0x5A
                   \<and> startsWith rest (js '':'' @ [backslash] @ js ''Users'' @ [backslash]))"

text \<open>\<open>if (username)\<close>: neither \<open>undefined\<close> nor the empty string.\<close>

fun truthy :: "jstring option \<Rightarrow> bool" where
  "truthy None = False"
| "truthy (Some s) = (s \<noteq> [])"

definition formatPath :: "jstring \<Rightarrow> jstring" where
  "formatPath p =
     (if startsWith p (js ''/Users/'') \<and> truthy (at (split slash p) 2)
      then replace p (js ''/Users/'' @ the (at (split slash p) 2)) (js ''~'')
      else if startsWith p (js ''/home/'') \<and> truthy (at (split slash p) 2)
      then replace p (js ''/home/'' @ the (at (split slash p) 2)) (js ''~'')
      else if drive_users p \<and> 2 < length (split backslash p)
      then replace p (the (at (split backslash p) 0) @ [backslash] @ js ''Users'' @ [backslash]
                        @ the (at (split backslash p) 2)) (js ''~'')
      else p)"

section \<open>Stored values\<close>

text \<open>
  What \<open>JSON.parse\<close> returns. Numbers are the integers: the timestamps written by the
  module are \<open>Date.now()\<close>, whole milliseconds far below \<open>2 ^ 53\<close>, where the
  subtraction of the comparator is exact. A number literal beyond the range of a double,
  such as \<open>1e999\<close>, parses to an infinity: \<open>JInf True\<close> is \<open>Infinity\<close> and
  \<open>JInf False\<close> is \<open>-Infinity\<close>. An object is the list of its own properties in
  insertion order; a parsed object holds a key once.
\<close>

datatype json =
    JNull
  | JBool bool
  | JNum int
  | JInf bool
  | JStr jstring
  | JArr "json list"
  | JObj "(jstring \<times> json) list"

datatype error = TypeError | SyntaxError

text \<open>
  \<open>x.k\<close> for the keys \<open>path\<close> and \<open>lastUsed\<close>, which no built-in prototype defines:
  a TypeError on \<open>null\<close>, the own property of an object, and \<open>undefined\<close> (\<open>None\<close>)
  everywhere else.
\<close>

fun property :: "jstring \<Rightarrow> json \<Rightarrow> error + json option" where
  "property k JNull = Inl TypeError"
| "property k (JObj kvs) = Inr (map_of kvs k)"
| "property k (JBool b) = Inr None"
| "property k (JNum n) = Inr None"
| "property k (JInf b) = Inr None"
| "property k (JStr s) = Inr None"
| "property k (JArr xs) = Inr None"

record ProjectHistoryItem =
  path :: jstring
  lastUsed :: int
  name :: jstring

text \<open>The object literal \<open>{path, lastUsed, name}\<close>, its keys in the order written.\<close>

definition item_json :: "ProjectHistoryItem \<Rightarrow> json" where
  "item_json it =
     JObj [(js ''path'', JStr (path it)), (js ''lastUsed'', JNum (lastUsed it)),
           (js ''name'', JStr (name it))]"

definition MAX_HISTORY_ITEMS :: nat where
  "MAX_HISTORY_ITEMS = 10"

text \<open>
  The text under the key \<open>claudia-project-history\<close>, as \<open>localStorage.getItem\<close> and
  \<open>JSON.parse\<close> see it: no item, the empty string, a text that \<open>JSON.parse\<close>
  rejects, or a text identified with the value it parses to. The storage itself is taken
  to accept every read and write.
\<close>

datatype storage = NoItem | EmptyText | BadText | Json json

text \<open>
  What \<open>JSON.parse\<close> gives back from the \<open>JSON.stringify\<close> of a value: the value
  itself, but for an infinity, which \<open>JSON.stringify\<close> writes as \<open>null\<close>. So
  \<open>setItem\<close> of the stringified \<open>v\<close> stores \<open>Json (written v)\<close>.
\<close>

primrec written :: "json \<Rightarrow> json" where
  "written JNull = JNull"
| "written (JBool b) = JBool b"
| "written (JNum n) = JNum n"
| "written (JInf b) = JNull"
| "written (JStr s) = JStr s"
| "written (JArr xs) = JArr (map written xs)"
| "written (JObj kvs) = JObj (map (map_prod id written) kvs)"

section \<open>Sorting\<close>

definition lastUsed_num :: "json \<Rightarrow> int option" where
  "lastUsed_num x =
     (case property (js ''lastUsed'') x of
        Inr (Some (JNum t)) \<Rightarrow> Some t
      | _ \<Rightarrow> None)"

definition timed :: "json \<Rightarrow> bool" where
  "timed x = (lastUsed_num x \<noteq> None)"

text \<open>The comparator \<open>(a, b) => b.lastUsed - a.lastUsed\<close> on two timed values.\<close>

definition compare :: "json \<Rightarrow> json \<Rightarrow> int" where
  "compare a b = the (lastUsed_num b) - the (lastUsed_num a)"

text \<open>
  \<open>Array.prototype.sort\<close> is stable, and with a consistent comparator its result is the
  one stable sorted order, which insertion computes: an element goes in front of the first
  one it does not have to follow.
\<close>

fun insert_by :: "('a \<Rightarrow> 'a \<Rightarrow> int) \<Rightarrow> 'a \<Rightarrow> 'a list \<Rightarrow> 'a list" where
  "insert_by cmp x [] = [x]"
| "insert_by cmp x (y # ys) =
     (if cmp x y \<le> 0 then x # y # ys else y # insert_by cmp x ys)"

definition sort_by :: "('a \<Rightarrow> 'a \<Rightarrow> int) \<Rightarrow> 'a list \<Rightarrow> 'a list" where
  "sort_by cmp xs = foldr (insert_by cmp) xs []"

text \<open>
  On an array with an element that is not timed the comparator leaves the integers (a
  \<open>NaN\<close>, an infinity, a coercion, a TypeError on \<open>null\<close>) and the order that the sort produces is
  implementation-defined. There the host's sort is a parameter: \<open>None\<close> when the
  comparator throws, the array it returns otherwise.
\<close>

type_synonym engine = "json list \<Rightarrow> json list option"

section \<open>The history store\<close>

text \<open>The body of the \<open>try\<close> of \<open>loadProjectHistory\<close>.\<close>

definition load_try :: "engine \<Rightarrow> storage \<Rightarrow> error + json list" where
  "load_try engine s =
     (case s of
        NoItem \<Rightarrow> Inr []
      | EmptyText \<Rightarrow> Inr []
      | BadText \<Rightarrow> Inl SyntaxError
      | Json v \<Rightarrow>
          (case v of
             JArr items \<Rightarrow>
               (if list_all timed items then Inr (sort_by compare items)
                else (case engine items of None \<Rightarrow> Inl TypeError | Some r \<Rightarrow> Inr r))
           | _ \<Rightarrow> Inl TypeError))"

definition loadProjectHistory :: "engine \<Rightarrow> storage \<Rightarrow> json list" where
  "loadProjectHistory engine s =
     (case load_try engine s of Inl e \<Rightarrow> [] | Inr items \<Rightarrow> items)"

text \<open>The predicate \<open>item => item.path !== path\<close>.\<close>

definition other_path :: "jstring \<Rightarrow> json \<Rightarrow> error + bool" where
  "other_path p item =
     (case property (js ''path'') item of
        Inl e \<Rightarrow> Inl e
      | Inr v \<Rightarrow> Inr (v \<noteq> Some (JStr p)))"

text \<open>\<open>Array.prototype.filter\<close> with a predicate that may throw.\<close>

fun filter_try :: "('a \<Rightarrow> error + bool) \<Rightarrow> 'a list \<Rightarrow> error + 'a list" where
  "filter_try f [] = Inr []"
| "filter_try f (x # xs) =
     (case f x of
        Inl e \<Rightarrow> Inl e
      | Inr b \<Rightarrow>
          (case filter_try f xs of
             Inl e \<Rightarrow> Inl e
           | Inr ys \<Rightarrow> Inr (if b then x # ys else ys)))"

text \<open>\<open>now\<close> is the value of \<open>Date.now()\<close> at the call.\<close>

definition saveProjectToHistory :: "engine \<Rightarrow> int \<Rightarrow> jstring \<Rightarrow> storage \<Rightarrow> storage" where
  "saveProjectToHistory engine now p s =
     (if p = [] \<or> trim p = [] then s
      else
        (case filter_try (other_path p) (loadProjectHistory engine s) of
           Inl e \<Rightarrow> s
         | Inr history \<Rightarrow>
             Json (written (JArr (take MAX_HISTORY_ITEMS
               (item_json \<lparr>path = p, lastUsed = now, name = getProjectName p\<rparr> # history))))))"

definition removeProjectFromHistory :: "engine \<Rightarrow> jstring \<Rightarrow> storage \<Rightarrow> storage" where
  "removeProjectFromHistory engine p s =
     (case filter_try (other_path p) (loadProjectHistory engine s) of
        Inl e \<Rightarrow> s
      | Inr filtered \<Rightarrow> Json (written (JArr filtered)))"

definition clearProjectHistory :: "storage \<Rightarrow> storage" where
  "clearProjectHistory s = NoItem"

text \<open>
  \<open>getMostRecentProject\<close> has no \<open>try\<close>: a TypeError of \<open>history[0].path\<close> reaches the
  caller. \<open>Some JNull\<close> is the \<open>null\<close> of the empty history, \<open>None\<close> an \<open>undefined\<close>
  path.
\<close>

definition getMostRecentProject :: "engine \<Rightarrow> storage \<Rightarrow> error + json option" where
  "getMostRecentProject engine s =
     (case loadProjectHistory engine s of
        [] \<Rightarrow> Inr (Some JNull)
      | first # _ \<Rightarrow> property (js ''path'') first)"

section \<open>Sequences of calls\<close>

datatype operation = Save jstring int | Remove jstring | Clear

fun apply_op :: "engine \<Rightarrow> operation \<Rightarrow> storage \<Rightarrow> storage" where
  "apply_op engine (Save p now) s = saveProjectToHistory engine now p s"
| "apply_op engine (Remove p) s = removeProjectFromHistory engine p s"
| "apply_op engine Clear s = clearProjectHistory s"

definition run :: "engine \<Rightarrow> operation list \<Rightarrow> storage \<Rightarrow> storage" where
  "run engine ops s = fold (apply_op engine) ops s"

text \<open>The array under the key, empty when the content is no array.\<close>

fun persisted :: "storage \<Rightarrow> json list" where
  "persisted (Json (JArr items)) = items"
| "persisted s = []"

text \<open>A value that \<open>JSON.stringify\<close> writes back as it is: it holds no infinity.\<close>

definition plain :: "json \<Rightarrow> bool" where
  "plain x = (written x = x)"

text \<open>
  A store of entries: its content, if it is an array, holds timed values only, each of
  them written back as it is.
\<close>

definition entries :: "storage \<Rightarrow> bool" where
  "entries s = list_all (\<lambda>x. timed x \<and> plain x) (persisted s)"

definition has_path :: "jstring \<Rightarrow> json \<Rightarrow> bool" where
  "has_path p x = (property (js ''path'') x = Inr (Some (JStr p)))"

definition blank :: "jstring \<Rightarrow> bool" where
  "blank p = list_all is_ws p"

section \<open>Notions used by the properties\<close>

text \<open>The timestamp of a timed value.\<close>

abbreviation tm :: "json \<Rightarrow> int" where
  "tm x \<equiv> the (lastUsed_num x)"

text \<open>Sorted by \<open>lastUsed\<close>, most recent first.\<close>

definition newest_first :: "json list \<Rightarrow> bool" where
  "newest_first xs = sorted_wrt (\<lambda>a b. tm b \<le> tm a) xs"

text \<open>The entry that \<open>saveProjectToHistory\<close> builds for a path at a time.\<close>

abbreviation entry :: "jstring \<Rightarrow> int \<Rightarrow> json" where
  "entry p now \<equiv> item_json \<lparr>path = p, lastUsed = now, name = getProjectName p\<rparr>"

text \<open>
  A history entry as the interface declares it: an object with a string \<open>path\<close>, a
  number \<open>lastUsed\<close> and a string \<open>name\<close>.
\<close>

definition valid_entry :: "json \<Rightarrow> bool" where
  "valid_entry x =
     (case (property (js ''path'') x, property (js ''lastUsed'') x, property (js ''name'') x) of
        (Inr (Some (JStr p)), Inr (Some (JNum t)), Inr (Some (JStr n))) \<Rightarrow> True
      | _ \<Rightarrow> False)"

text \<open>
  Malformed content in the specification's words: absent, not parseable, or not an array
  of valid entries.
\<close>

fun malformed :: "storage \<Rightarrow> bool" where
  "malformed NoItem = True"
| "malformed EmptyText = True"
| "malformed BadText = True"
| "malformed (Json (JArr items)) = (\<not> list_all valid_entry items)"
| "malformed (Json v) = True"

text \<open>Content that is absent, empty, not parseable, or parses to a value that is no array.\<close>

fun no_array :: "storage \<Rightarrow> bool" where
  "no_array (Json (JArr items)) = False"
| "no_array s = True"

text \<open>A run of insertions, one \<open>saveProjectToHistory\<close> per path and time.\<close>

definition inserts :: "(jstring \<times> int) list \<Rightarrow> operation list" where
  "inserts pts = map (\<lambda>(p, t). Save p t) pts"

text \<open>The entry built for a pair of a path and a time.\<close>

abbreviation made :: "jstring \<times> int \<Rightarrow> json" where
  "made pt \<equiv> entry (fst pt) (snd pt)"

text \<open>
  The last maximal run of code units other than the separator: what is left of the end
  of a string once the separators that close it are dropped.
\<close>

definition last_segment :: "'a \<Rightarrow> 'a list \<Rightarrow> 'a list" where
  "last_segment sep xs = rev (takeWhile (\<lambda>c. c \<noteq> sep) (dropWhile (\<lambda>c. c = sep) (rev xs)))"

text \<open>Ten projects, saved at times that do not follow the order of the calls.\<close>

definition ten_projects :: "(jstring \<times> int) list" where
  "ten_projects =
     [(js ''/a'', 5), (js ''/b'', 1), (js ''/c'', 9), (js ''/d'', 3), (js ''/e'', 7),
      (js ''/f'', 2), (js ''/g'', 8), (js ''/h'', 4), (js ''/i'', 10), (js ''/j'', 6)]"

section \<open>Auxiliary facts\<close>

subsection \<open>Blank paths\<close>

lemma dropWhile_all_nil: "(dropWhile P xs = []) = list_all P xs"
  by (induction xs) auto

lemma all_ws_dropWhile: "list_all is_ws (dropWhile is_ws p) = (dropWhile is_ws p = [])"
proof (cases "dropWhile is_ws p")
  case Nil
  show ?thesis unfolding Nil by simp
next
  case (Cons c cs)
  have "\<not> is_ws c"
    using hd_dropWhile [of is_ws p] Cons by simp
  then show ?thesis unfolding Cons by simp
qed

lemma trim_nil_iff: "(trim p = []) = list_all is_ws p"
proof -
  have "(trim p = []) = list_all is_ws (rev (dropWhile is_ws p))"
    unfolding trim_def rev_is_Nil_conv by (rule dropWhile_all_nil)
  also have "\<dots> = list_all is_ws (dropWhile is_ws p)"
    by (simp add: list_all_iff)
  also have "\<dots> = (dropWhile is_ws p = [])"
    by (rule all_ws_dropWhile)
  finally show ?thesis by (simp only: dropWhile_all_nil)
qed

lemma blank_iff: "(p = [] \<or> trim p = []) = blank p"
  by (auto simp: blank_def trim_nil_iff)

subsection \<open>The stable sort\<close>

lemma mset_insert_by: "mset (insert_by cmp x ys) = add_mset x (mset ys)"
  by (induction ys) auto

lemma mset_sort_by: "mset (sort_by cmp xs) = mset xs"
  by (induction xs) (auto simp: sort_by_def mset_insert_by)

lemma set_sort_by: "set (sort_by cmp xs) = set xs"
  using mset_sort_by [of cmp xs] by (metis set_mset_mset)

lemma length_sort_by: "length (sort_by cmp xs) = length xs"
  using mset_sort_by [of cmp xs] by (metis size_mset)

lemma set_insert_by: "set (insert_by cmp x ys) = insert x (set ys)"
  using mset_insert_by [of cmp x ys] by (metis set_mset_mset set_mset_add_mset_insert)

lemma newest_first_insert_by:
  "newest_first ys \<Longrightarrow> newest_first (insert_by compare x ys)"
  unfolding newest_first_def
  by (induction ys) (auto simp: compare_def set_insert_by)

lemma newest_first_sort_by: "newest_first (sort_by compare xs)"
proof (induction xs)
  case Nil
  show ?case by (simp add: sort_by_def newest_first_def)
next
  case (Cons x xs)
  then show ?case
    using newest_first_insert_by [of "sort_by compare xs" x] by (simp add: sort_by_def)
qed

lemma insert_by_front:
  "\<forall>y \<in> set ys. tm y \<le> tm x \<Longrightarrow> insert_by compare x ys = x # ys"
  by (cases ys) (auto simp: compare_def)

lemma sort_by_sorted: "newest_first xs \<Longrightarrow> sort_by compare xs = xs"
proof (induction xs)
  case Nil
  show ?case by (simp add: sort_by_def)
next
  case (Cons x xs)
  then have "sort_by compare xs = xs" and "\<forall>y \<in> set xs. tm y \<le> tm x"
    by (auto simp: newest_first_def)
  then show ?case
    using insert_by_front [of xs x] by (simp add: sort_by_def)
qed

lemma newest_first_filter: "newest_first xs \<Longrightarrow> newest_first (filter P xs)"
  unfolding newest_first_def by (rule sorted_wrt_filter)

lemma newest_first_take: "newest_first xs \<Longrightarrow> newest_first (take n xs)"
  unfolding newest_first_def by (rule sorted_wrt_take)

lemma newest_first_Cons:
  "newest_first (x # xs) = ((\<forall>y \<in> set xs. tm y \<le> tm x) \<and> newest_first xs)"
  by (simp add: newest_first_def)

subsection \<open>Loading\<close>

lemma entries_timed: "entries s \<Longrightarrow> list_all timed (persisted s)"
  by (simp add: entries_def list_all_iff)

lemma entries_plain: "entries s \<Longrightarrow> list_all plain (persisted s)"
  by (simp add: entries_def list_all_iff)

lemma entries_both: "list_all timed (persisted s) \<Longrightarrow> list_all plain (persisted s) \<Longrightarrow> entries s"
  by (simp add: entries_def list_all_iff)

lemma load_timed:
  "list_all timed (persisted s) \<Longrightarrow> loadProjectHistory engine s = sort_by compare (persisted s)"
proof (cases s)
  case (Json v)
  assume "list_all timed (persisted s)"
  with Json show ?thesis
    by (cases v) (simp_all add: loadProjectHistory_def load_try_def sort_by_def)
qed (simp_all add: loadProjectHistory_def load_try_def sort_by_def)

lemma load_entries:
  "entries s \<Longrightarrow> loadProjectHistory engine s = sort_by compare (persisted s)"
  by (rule load_timed [OF entries_timed])

lemma timed_not_null: "timed x \<Longrightarrow> \<exists>v. property k x = Inr v"
  by (cases x) (simp_all add: timed_def lastUsed_num_def)

lemma other_path_timed: "timed x \<Longrightarrow> other_path p x = Inr (\<not> has_path p x)"
  using timed_not_null [of x "js ''path''"]
  by (auto simp: other_path_def has_path_def)

lemma filter_try_timed:
  "list_all timed xs \<Longrightarrow> filter_try (other_path p) xs = Inr (filter (\<lambda>x. \<not> has_path p x) xs)"
  by (induction xs) (simp_all add: other_path_timed)

lemma timed_load: "entries s \<Longrightarrow> list_all timed (loadProjectHistory engine s)"
  using entries_timed [of s] by (simp add: load_entries list_all_iff set_sort_by)

lemma plain_load: "entries s \<Longrightarrow> list_all plain (loadProjectHistory engine s)"
  using entries_plain [of s] by (simp add: load_entries list_all_iff set_sort_by)

lemma written_plain: "list_all plain xs \<Longrightarrow> written (JArr xs) = JArr xs"
  by (simp add: plain_def list_all_iff map_idI)

lemma list_all_kept: "P x \<Longrightarrow> list_all P xs \<Longrightarrow> list_all P (take n (x # filter Q xs))"
  using set_take_subset [of n "x # filter Q xs"] by (auto simp: list_all_iff)

subsection \<open>Saving and removing\<close>

lemma timed_item [simp]: "timed (item_json it)"
  by (simp add: timed_def lastUsed_num_def item_json_def js_def)

lemma tm_item [simp]: "tm (item_json it) = lastUsed it"
  by (simp add: lastUsed_num_def item_json_def js_def)

lemma has_path_item [simp]: "has_path p (item_json it) = (path it = p)"
  by (auto simp: has_path_def item_json_def js_def)

lemma plain_item [simp]: "plain (item_json it)"
  by (simp add: plain_def item_json_def)

lemma save_entries:
  assumes "entries s" and "\<not> blank p"
  shows "saveProjectToHistory engine now p s =
           Json (JArr (take MAX_HISTORY_ITEMS
             (entry p now # filter (\<lambda>x. \<not> has_path p x) (loadProjectHistory engine s))))"
  using assms blank_iff [of p] filter_try_timed [OF timed_load [OF assms(1)], of p engine]
    written_plain [OF list_all_kept [OF plain_item plain_load [OF assms(1)]]]
  by (simp add: saveProjectToHistory_def)

lemma save_blank: "blank p \<Longrightarrow> saveProjectToHistory engine now p s = s"
  using blank_iff [of p] by (simp add: saveProjectToHistory_def)

lemma remove_entries:
  assumes "entries s"
  shows "removeProjectFromHistory engine p s =
           Json (JArr (filter (\<lambda>x. \<not> has_path p x) (loadProjectHistory engine s)))"
  using filter_try_timed [OF timed_load [OF assms], of p engine]
    written_plain [of "filter (\<lambda>x. \<not> has_path p x) (loadProjectHistory engine s)"]
    plain_load [OF assms, of engine]
  by (simp add: removeProjectFromHistory_def list_all_iff)

lemma entries_save: "entries s \<Longrightarrow> entries (saveProjectToHistory engine now p s)"
proof (cases "blank p")
  case True
  assume "entries s"
  with True show ?thesis by (simp add: save_blank)
next
  case False
  assume e: "entries s"
  have "list_all timed (take MAX_HISTORY_ITEMS
      (entry p now # filter (\<lambda>x. \<not> has_path p x) (loadProjectHistory engine s)))"
    by (rule list_all_kept [OF timed_item timed_load [OF e]])
  moreover have "list_all plain (take MAX_HISTORY_ITEMS
      (entry p now # filter (\<lambda>x. \<not> has_path p x) (loadProjectHistory engine s)))"
    by (rule list_all_kept [OF plain_item plain_load [OF e]])
  ultimately show ?thesis
    unfolding save_entries [OF e False] by (intro entries_both) simp_all
qed

lemma entries_remove: "entries s \<Longrightarrow> entries (removeProjectFromHistory engine p s)"
  using timed_load [of s engine] plain_load [of s engine]
  by (simp add: remove_entries entries_def list_all_iff)

lemma entries_clear: "entries (clearProjectHistory s)"
  by (simp add: clearProjectHistory_def entries_def)

lemma entries_apply_op: "entries s \<Longrightarrow> entries (apply_op engine op s)"
  by (cases op) (simp_all add: entries_save entries_remove entries_clear)

lemma entries_run: "entries s \<Longrightarrow> entries (run engine ops s)"
  unfolding run_def
  by (induction ops arbitrary: s) (simp_all add: entries_apply_op)

lemma newest_first_load: "entries s \<Longrightarrow> newest_first (loadProjectHistory engine s)"
  by (simp add: load_entries newest_first_sort_by)

lemma load_Json_sorted:
  "list_all timed xs \<Longrightarrow> newest_first xs \<Longrightarrow> loadProjectHistory engine (Json (JArr xs)) = xs"
  by (simp add: load_timed sort_by_sorted)

lemma load_remove:
  assumes "entries s"
  shows "loadProjectHistory engine (removeProjectFromHistory engine p s) =
           filter (\<lambda>x. \<not> has_path p x) (loadProjectHistory engine s)"
proof -
  have "list_all timed (filter (\<lambda>x. \<not> has_path p x) (loadProjectHistory engine s))"
    using timed_load [OF assms, of engine] by (simp add: list_all_iff)
  moreover have "newest_first (filter (\<lambda>x. \<not> has_path p x) (loadProjectHistory engine s))"
    by (rule newest_first_filter [OF newest_first_load [OF assms]])
  ultimately show ?thesis
    by (simp add: remove_entries [OF assms] load_Json_sorted)
qed

lemma load_save:
  assumes e: "entries s" and nb: "\<not> blank p"
    and latest: "\<forall>x \<in> set (loadProjectHistory engine s). tm x \<le> now"
  shows "loadProjectHistory engine (saveProjectToHistory engine now p s) =
           take MAX_HISTORY_ITEMS
             (entry p now # filter (\<lambda>x. \<not> has_path p x) (loadProjectHistory engine s))"
proof -
  let ?rest = "filter (\<lambda>x. \<not> has_path p x) (loadProjectHistory engine s)"
  have t: "list_all timed (entry p now # ?rest)"
    using timed_load [OF e, of engine] by (simp add: list_all_iff)
  have "newest_first ?rest"
    by (rule newest_first_filter [OF newest_first_load [OF e]])
  with latest have n: "newest_first (entry p now # ?rest)"
    by (simp add: newest_first_Cons)
  have "list_all timed (take MAX_HISTORY_ITEMS (entry p now # ?rest))"
    using t unfolding list_all_iff using in_set_takeD by fast
  moreover have "newest_first (take MAX_HISTORY_ITEMS (entry p now # ?rest))"
    by (rule newest_first_take [OF n])
  ultimately show ?thesis
    by (simp only: save_entries [OF e nb] load_Json_sorted)
qed

subsection \<open>Sorted histories, capacity and runs of insertions\<close>

lemma newest_first_times: "newest_first xs = sorted (rev (map tm xs))"
  by (simp add: newest_first_def sorted_wrt_rev sorted_wrt_map flip: rev_map)

lemma newest_first_same_times:
  assumes "newest_first xs" and "newest_first ys" and "mset xs = mset ys"
  shows "map tm xs = map tm ys"
proof -
  have "mset (rev (map tm xs)) = mset (rev (map tm ys))"
    using assms(3) by (metis mset_map mset_rev)
  then have "sort (rev (map tm ys)) = rev (map tm xs)"
    using assms(1) by (intro properties_for_sort) (simp_all add: newest_first_times)
  moreover have "sort (rev (map tm ys)) = rev (map tm ys)"
    using assms(2) by (intro properties_for_sort) (simp_all add: newest_first_times)
  ultimately show ?thesis by simp
qed

lemma load_nil: "persisted s = [] \<Longrightarrow> loadProjectHistory engine s = []"
  by (simp add: load_timed sort_by_def)

lemma entries_nil: "persisted s = [] \<Longrightarrow> entries s"
  by (simp add: entries_def)

lemma take_max_short:
  "length ys < MAX_HISTORY_ITEMS \<Longrightarrow> take MAX_HISTORY_ITEMS (x # ys) = x # ys"
  by (simp add: MAX_HISTORY_ITEMS_def)

lemma take_max_full:
  "length ys = MAX_HISTORY_ITEMS \<Longrightarrow> take MAX_HISTORY_ITEMS (x # ys) = x # butlast ys"
  by (simp add: MAX_HISTORY_ITEMS_def butlast_conv_take)

lemma length_load: "entries s \<Longrightarrow> length (loadProjectHistory engine s) = length (persisted s)"
  by (simp add: load_entries length_sort_by)

lemma set_load: "entries s \<Longrightarrow> set (loadProjectHistory engine s) = set (persisted s)"
  by (simp add: load_entries set_sort_by)

lemma filter_none: "list_all (\<lambda>x. \<not> P x) xs \<Longrightarrow> filter (\<lambda>x. \<not> P x) xs = xs"
  by (induction xs) simp_all

lemma first_of_single_save:
  assumes "persisted s = []" and "\<not> blank a"
  shows "saveProjectToHistory engine t a s = Json (JArr [entry a t])"
  using assms
  by (simp add: save_entries [OF entries_nil] load_nil MAX_HISTORY_ITEMS_def)

lemma not_has_path_other: "q \<noteq> p \<Longrightarrow> has_path q x \<Longrightarrow> \<not> has_path p x"
  by (simp add: has_path_def)

lemma lastUsed_num_entry: "lastUsed_num (entry p now) = Some now"
  by (simp add: lastUsed_num_def item_json_def js_def)

lemma run_Cons: "run engine (op # ops) s = run engine ops (apply_op engine op s)"
  by (simp add: run_def)

lemma save_new_short:
  assumes e: "entries s" and nb: "\<not> blank p"
    and new: "list_all (\<lambda>x. \<not> has_path p x) (persisted s)"
    and short: "length (persisted s) < MAX_HISTORY_ITEMS"
  shows "persisted (saveProjectToHistory engine t p s) = entry p t # loadProjectHistory engine s"
proof -
  have "list_all (\<lambda>x. \<not> has_path p x) (loadProjectHistory engine s)"
    using new by (simp add: list_all_iff set_load [OF e])
  then have "filter (\<lambda>x. \<not> has_path p x) (loadProjectHistory engine s) = loadProjectHistory engine s"
    by (rule filter_none)
  then show ?thesis
    using short by (simp add: save_entries [OF e nb] take_max_short length_load [OF e])
qed

lemma last_smallest:
  "newest_first xs \<Longrightarrow> list_all (\<lambda>x. tm (last xs) \<le> tm x) xs"
proof (induction xs)
  case Nil
  show ?case by simp
next
  case (Cons x xs)
  then show ?case
    by (cases xs) (auto simp: newest_first_Cons list_all_iff)
qed

lemma save_evicts:
  assumes e: "entries s" and nb: "\<not> blank q"
    and new: "list_all (\<lambda>x. \<not> has_path q x) (persisted s)"
    and full: "length (persisted s) = MAX_HISTORY_ITEMS"
  shows "persisted (saveProjectToHistory engine t q s) = entry q t # butlast (loadProjectHistory engine s)"
proof -
  have "list_all (\<lambda>x. \<not> has_path q x) (loadProjectHistory engine s)"
    using new by (simp add: list_all_iff set_load [OF e])
  then have "filter (\<lambda>x. \<not> has_path q x) (loadProjectHistory engine s) = loadProjectHistory engine s"
    by (rule filter_none)
  then show ?thesis
    using full by (simp add: save_entries [OF e nb] take_max_full length_load [OF e])
qed

lemma bound_preserved:
  assumes e: "entries s" and b: "length (persisted s) \<le> MAX_HISTORY_ITEMS"
  shows "length (persisted (apply_op engine op s)) \<le> MAX_HISTORY_ITEMS"
proof (cases op)
  case (Save p t)
  show ?thesis
  proof (cases "blank p")
    case True
    with b Save show ?thesis by (simp add: save_blank)
  next
    case False
    with Save show ?thesis by (simp add: save_entries [OF e False])
  qed
next
  case (Remove p)
  have "length (filter (\<lambda>x. \<not> has_path p x) (loadProjectHistory engine s))
      \<le> length (loadProjectHistory engine s)"
    by (rule length_filter_le)
  with b Remove show ?thesis
    by (simp add: remove_entries [OF e] length_load [OF e])
next
  case Clear
  then show ?thesis by (simp add: clearProjectHistory_def)
qed

lemma entries_made: "mset (persisted s) = mset (map made prev) \<Longrightarrow> entries s"
proof -
  assume "mset (persisted s) = mset (map made prev)"
  then have "set (persisted s) = set (map made prev)"
    by (rule mset_eq_setD)
  then have "set (persisted s) = made ` set prev"
    by simp
  then show ?thesis
    unfolding entries_def list_all_iff by (auto simp del: set_map)
qed

lemma fresh_made:
  assumes "mset (persisted s) = mset (map made prev)" and "p \<notin> set (map fst prev)"
  shows "list_all (\<lambda>x. \<not> has_path p x) (persisted s)"
proof -
  have "set (persisted s) = set (map made prev)"
    using assms(1) by (rule mset_eq_setD)
  then have "set (persisted s) = made ` set prev"
    by simp
  with assms(2) show ?thesis
    unfolding list_all_iff by auto
qed

lemma run_inserts:
  assumes "mset (persisted s) = mset (map made prev)"
    and "distinct (map fst (prev @ pts))"
    and "list_all (\<lambda>pt. \<not> blank (fst pt)) pts"
    and "length prev + length pts \<le> MAX_HISTORY_ITEMS"
  shows "mset (persisted (run engine (inserts pts) s)) = mset (map made (prev @ pts))"
  using assms
proof (induction pts arbitrary: s prev)
  case Nil
  then show ?case by (simp add: inserts_def run_def)
next
  case (Cons pt pts)
  let ?s = "saveProjectToHistory engine (snd pt) (fst pt) s"
  have e: "entries s"
    by (rule entries_made [OF Cons.prems(1)])
  have fresh: "list_all (\<lambda>x. \<not> has_path (fst pt) x) (persisted s)"
    using Cons.prems(2) by (intro fresh_made [OF Cons.prems(1)]) simp
  have "length (persisted s) = length prev"
    using mset_eq_length [OF Cons.prems(1)] by simp
  with Cons.prems(4) have short: "length (persisted s) < MAX_HISTORY_ITEMS"
    by simp
  have nb: "\<not> blank (fst pt)"
    using Cons.prems(3) by simp
  have "persisted ?s = made pt # loadProjectHistory engine s"
    by (rule save_new_short [OF e nb fresh short])
  then have "mset (persisted ?s) = mset (map made (prev @ [pt]))"
    using Cons.prems(1) by (simp add: load_entries [OF e] mset_sort_by)
  moreover have "distinct (map fst ((prev @ [pt]) @ pts))"
    using Cons.prems(2) by simp
  moreover have "list_all (\<lambda>pt. \<not> blank (fst pt)) pts"
    using Cons.prems(3) by simp
  moreover have "length (prev @ [pt]) + length pts \<le> MAX_HISTORY_ITEMS"
    using Cons.prems(4) by simp
  ultimately have "mset (persisted (run engine (inserts pts) ?s)) = mset (map made ((prev @ [pt]) @ pts))"
    by (rule Cons.IH)
  then show ?case
    by (simp add: inserts_def run_Cons case_prod_beta)
qed

lemma made_inj: "made pt = made pt' \<Longrightarrow> fst pt = fst pt'"
  by (simp add: item_json_def)

lemma distinct_made: "distinct (map fst pts) \<Longrightarrow> distinct (map made pts)"
proof (induction pts)
  case Nil
  show ?case by simp
next
  case (Cons pt pts)
  have "made pt \<notin> made ` set pts"
  proof
    assume "made pt \<in> made ` set pts"
    then obtain pt' where "pt' \<in> set pts" and "made pt = made pt'"
      by blast
    then have "fst pt \<in> fst ` set pts"
      using made_inj [of pt pt'] by simp
    with Cons.prems show False by simp
  qed
  with Cons show ?case by simp
qed

lemma last_not_in_butlast: "distinct xs \<Longrightarrow> xs \<noteq> [] \<Longrightarrow> last xs \<notin> set (butlast xs)"
proof -
  assume d: "distinct xs" and n: "xs \<noteq> []"
  have "distinct (butlast xs @ [last xs])"
    using d n by simp
  then show ?thesis
    by (simp only: distinct_append) simp
qed

subsection \<open>Splitting and the last segment\<close>

lemma split_not_Nil: "split sep xs \<noteq> []"
  by (induction xs) (auto split: list.splits)

lemma split_snoc_sep: "split sep (xs @ [sep]) = split sep xs @ [[]]"
  by (induction xs) (auto split: list.splits simp: split_not_Nil)

lemma split_snoc_other:
  "c \<noteq> sep \<Longrightarrow> split sep (xs @ [c]) = butlast (split sep xs) @ [last (split sep xs) @ [c]]"
proof (induction xs)
  case Nil
  then show ?case by simp
next
  case (Cons x xs)
  then show ?case
    using split_not_Nil [of sep xs]
    by (cases "split sep xs") (auto split: list.splits)
qed

lemma last_split: "last (split sep xs) = rev (takeWhile (\<lambda>c. c \<noteq> sep) (rev xs))"
proof (induction xs rule: rev_induct)
  case Nil
  show ?case by simp
next
  case (snoc c xs)
  then show ?case
    by (cases "c = sep") (simp_all add: split_snoc_sep split_snoc_other)
qed

lemma last_segment_split:
  "(filter (\<lambda>s. s \<noteq> []) (split sep xs) = []) = (last_segment sep xs = [])
   \<and> (filter (\<lambda>s. s \<noteq> []) (split sep xs) \<noteq> [] \<longrightarrow>
        last (filter (\<lambda>s. s \<noteq> []) (split sep xs)) = last_segment sep xs)"
proof (induction xs rule: rev_induct)
  case Nil
  show ?case by (simp add: last_segment_def)
next
  case (snoc c xs)
  show ?case
  proof (cases "c = sep")
    case True
    with snoc show ?thesis
      by (simp add: split_snoc_sep last_segment_def)
  next
    case False
    then show ?thesis
      by (simp add: split_snoc_other last_segment_def last_split)
  qed
qed

lemma at_last: "at xs (int (length xs) - 1) = (if xs = [] then None else Some (last xs))"
  by (cases xs rule: rev_cases) (simp_all add: at_def nth_append)

lemma last_filter_nonempty:
  "filter (\<lambda>s. s \<noteq> []) xs \<noteq> [] \<Longrightarrow> last (filter (\<lambda>s. s \<noteq> []) xs) \<noteq> []"
  using last_in_set [of "filter (\<lambda>s. s \<noteq> []) xs"] by simp

lemma name_last_segment:
  "getProjectName p =
     (if last_segment slash p = [] then js ''Unknown Project'' else last_segment slash p)"
proof (cases "filter (\<lambda>s. s \<noteq> []) (split slash p) = []")
  case True
  then show ?thesis
    using last_segment_split [of slash p] by (simp add: getProjectName_def at_last)
next
  case False
  then show ?thesis
    using last_segment_split [of slash p] last_filter_nonempty [OF False]
    by (simp add: getProjectName_def at_last Let_def)
qed

lemma name_derive: "getProjectName p = derive_name p"
proof (cases "filter (\<lambda>s. s \<noteq> []) (split slash p)" rule: rev_cases)
  case Nil
  then show ?thesis
    by (simp add: getProjectName_def derive_name_def at_last)
next
  case (snoc segs seg)
  then have "seg \<noteq> []"
    using last_filter_nonempty [of "split slash p"] by simp
  with snoc show ?thesis
    by (simp add: getProjectName_def derive_name_def at_last)
qed

section \<open>Properties of the store\<close>

text \<open>
  C1 as stated, for every path, fails at the empty path: \<open>saveProjectToHistory\<close>
  returns at once on a path that is empty or white space only, so after two calls the
  store holds no entry with that path.
\<close>

theorem save_twice_counterexample:
  "length (filter (has_path [])
      (persisted (saveProjectToHistory (\<lambda>xs. None) 2 []
        (run (\<lambda>xs. None) [] (saveProjectToHistory (\<lambda>xs. None) 1 [] NoItem))))) = 0
   \<and> loadProjectHistory (\<lambda>xs. None)
        (saveProjectToHistory (\<lambda>xs. None) 2 []
          (run (\<lambda>xs. None) [] (saveProjectToHistory (\<lambda>xs. None) 1 [] NoItem))) = []"
  by (simp add: saveProjectToHistory_def run_def loadProjectHistory_def load_try_def)

text \<open>
  C1, amended. On a store of entries, save a path that is neither empty nor white
  space only, run any operations, and save the same path again at a time no earlier than
  every \<open>lastUsed\<close> then in the store: the history that
  \<open>loadProjectHistory\<close> returns starts with the entry of that path, whose
  \<open>lastUsed\<close> is the time of the second call, and the store holds exactly one entry
  with that path.
\<close>

theorem save_twice:
  assumes "entries s0" and "\<not> blank p"
    and "s2 = run engine ops (saveProjectToHistory engine t1 p s0)"
    and "list_all (\<lambda>x. the (lastUsed_num x) \<le> t2) (loadProjectHistory engine s2)"
  shows "\<exists>rest. loadProjectHistory engine (saveProjectToHistory engine t2 p s2) = entry p t2 # rest
           \<and> list_all (\<lambda>x. \<not> has_path p x) rest
           \<and> persisted (saveProjectToHistory engine t2 p s2) = entry p t2 # rest
           \<and> length (filter (has_path p) (persisted (saveProjectToHistory engine t2 p s2))) = 1
           \<and> has_path p (entry p t2) \<and> lastUsed_num (entry p t2) = Some t2"
proof -
  let ?kept = "filter (\<lambda>x. \<not> has_path p x) (loadProjectHistory engine s2)"
  let ?rest = "take (MAX_HISTORY_ITEMS - 1) ?kept"
  have e2: "entries s2"
    unfolding assms(3) by (intro entries_run entries_save assms(1))
  have t: "take MAX_HISTORY_ITEMS (entry p t2 # ?kept) = entry p t2 # ?rest"
    by (simp add: MAX_HISTORY_ITEMS_def)
  have s: "persisted (saveProjectToHistory engine t2 p s2) = entry p t2 # ?rest"
    by (simp only: save_entries [OF e2 assms(2)] t persisted.simps)
  have latest: "\<forall>x \<in> set (loadProjectHistory engine s2). tm x \<le> t2"
    using assms(4) by (simp only: list_all_iff)
  have l: "loadProjectHistory engine (saveProjectToHistory engine t2 p s2) = entry p t2 # ?rest"
    by (simp only: load_save [OF e2 assms(2) latest] t)
  have n: "list_all (\<lambda>x. \<not> has_path p x) ?rest"
    using set_take_subset [of "MAX_HISTORY_ITEMS - 1" ?kept] by (auto simp: list_all_iff)
  then have "filter (has_path p) ?rest = []"
    by (simp only: list_all_iff filter_empty_conv)
  then have c: "length (filter (has_path p) (entry p t2 # ?rest)) = 1"
    by simp
  have h: "has_path p (entry p t2)"
    by simp
  have u: "lastUsed_num (entry p t2) = Some t2"
    by (simp add: lastUsed_num_def item_json_def js_def)
  show ?thesis
    unfolding s l using n c h u by (intro exI [of _ ?rest] conjI refl)
qed

theorem save_twice_witness:
  "entries NoItem
   \<and> \<not> blank (js ''/a'')
   \<and> list_all (\<lambda>x. the (lastUsed_num x) \<le> 3)
        (loadProjectHistory (\<lambda>xs. None)
          (run (\<lambda>xs. None) [Save (js ''/b'') 2, Remove (js ''/c'')]
            (saveProjectToHistory (\<lambda>xs. None) 1 (js ''/a'') NoItem)))
   \<and> (\<exists>rest.
        loadProjectHistory (\<lambda>xs. None)
          (saveProjectToHistory (\<lambda>xs. None) 3 (js ''/a'')
            (run (\<lambda>xs. None) [Save (js ''/b'') 2, Remove (js ''/c'')]
              (saveProjectToHistory (\<lambda>xs. None) 1 (js ''/a'') NoItem)))
          = entry (js ''/a'') 3 # rest
        \<and> list_all (\<lambda>x. \<not> has_path (js ''/a'') x) rest
        \<and> persisted
            (saveProjectToHistory (\<lambda>xs. None) 3 (js ''/a'')
              (run (\<lambda>xs. None) [Save (js ''/b'') 2, Remove (js ''/c'')]
                (saveProjectToHistory (\<lambda>xs. None) 1 (js ''/a'') NoItem)))
          = entry (js ''/a'') 3 # rest
        \<and> length (filter (has_path (js ''/a''))
            (persisted
              (saveProjectToHistory (\<lambda>xs. None) 3 (js ''/a'')
                (run (\<lambda>xs. None) [Save (js ''/b'') 2, Remove (js ''/c'')]
                  (saveProjectToHistory (\<lambda>xs. None) 1 (js ''/a'') NoItem))))) = 1
        \<and> has_path (js ''/a'') (entry (js ''/a'') 3)
        \<and> lastUsed_num (entry (js ''/a'') 3) = Some 3)"
proof -
  have h1: "entries NoItem"
    by (simp add: entries_def)
  have h2: "\<not> blank (js ''/a'')"
    by (simp add: blank_def js_def is_ws_def whitespace_units_def)
  have h3: "list_all (\<lambda>x. the (lastUsed_num x) \<le> 3)
        (loadProjectHistory (\<lambda>xs. None)
          (run (\<lambda>xs. None) [Save (js ''/b'') 2, Remove (js ''/c'')]
            (saveProjectToHistory (\<lambda>xs. None) 1 (js ''/a'') NoItem)))"
    by code_simp
  show ?thesis
    by (rule conjI [OF h1 conjI [OF h2 conjI [OF h3 save_twice [OF h1 h2 refl h3]]]])
qed

text \<open>
  C2 as stated, for distinct non-empty paths, fails when one of them is white space only:
  after ten insertions an eleventh of the path of one space, which is not empty and
  differs from the ten, changes nothing, so no entry is evicted.
\<close>

theorem capacity_counterexample:
  "length (ten_projects @ [(js '' '', 11)]) = 11
   \<and> distinct (map fst (ten_projects @ [(js '' '', 11)]))
   \<and> list_all (\<lambda>pt. fst pt \<noteq> []) (ten_projects @ [(js '' '', 11)])
   \<and> saveProjectToHistory (\<lambda>xs. None) 11 (js '' '')
        (run (\<lambda>xs. None) (inserts ten_projects) NoItem)
       = run (\<lambda>xs. None) (inserts ten_projects) NoItem
   \<and> length (persisted (run (\<lambda>xs. None) (inserts ten_projects) NoItem)) = 10"
proof -
  have "blank (js '' '')"
    by (simp add: blank_def js_def is_ws_def whitespace_units_def)
  then have "saveProjectToHistory (\<lambda>xs. None) 11 (js '' '')
        (run (\<lambda>xs. None) (inserts ten_projects) NoItem)
       = run (\<lambda>xs. None) (inserts ten_projects) NoItem"
    by (rule save_blank)
  moreover have "length (ten_projects @ [(js '' '', 11)]) = 11
      \<and> distinct (map fst (ten_projects @ [(js '' '', 11)]))
      \<and> list_all (\<lambda>pt. fst pt \<noteq> []) (ten_projects @ [(js '' '', 11)])"
    by (simp add: ten_projects_def js_def)
  moreover have "length (persisted (run (\<lambda>xs. None) (inserts ten_projects) NoItem)) = 10"
    by code_simp
  ultimately show ?thesis by simp
qed

text \<open>
  C2, amended. On a store of entries an operation never takes a persisted
  array of at most ten entries beyond ten. Ten insertions of distinct paths, none empty
  or white space only, into an empty store leave exactly those ten entries, and an
  eleventh insertion of such a path, new to the store, leaves ten again: the new entry in
  front of the loaded history without its last element, which is an entry of the ten
  whose \<open>lastUsed\<close> is smallest and which is gone afterwards.
\<close>

theorem capacity:
  "(entries s \<and> length (persisted s) \<le> 10 \<longrightarrow>
      length (persisted (apply_op engine op s)) \<le> 10)
   \<and> (persisted s0 = [] \<and> length pts = 10 \<and> distinct (map fst pts)
        \<and> list_all (\<lambda>pt. \<not> blank (fst pt)) pts \<and> \<not> blank q \<and> q \<notin> set (map fst pts) \<longrightarrow>
      (let s10 = run engine (inserts pts) s0;
           s11 = saveProjectToHistory engine t q s10;
           oldest = last (loadProjectHistory engine s10)
       in mset (persisted s10) = mset (map made pts)
          \<and> length (persisted s10) = 10
          \<and> persisted s11 = entry q t # butlast (loadProjectHistory engine s10)
          \<and> length (persisted s11) = 10
          \<and> oldest \<in> set (persisted s10)
          \<and> oldest \<notin> set (persisted s11)
          \<and> list_all (\<lambda>x. the (lastUsed_num oldest) \<le> the (lastUsed_num x)) (persisted s10)))"
proof (intro conjI impI)
  assume "entries s \<and> length (persisted s) \<le> 10"
  then show "length (persisted (apply_op engine op s)) \<le> 10"
    using bound_preserved [of s engine op] by (simp add: MAX_HISTORY_ITEMS_def)
next
  assume h: "persisted s0 = [] \<and> length pts = 10 \<and> distinct (map fst pts)
        \<and> list_all (\<lambda>pt. \<not> blank (fst pt)) pts \<and> \<not> blank q \<and> q \<notin> set (map fst pts)"
  define s10 where "s10 = run engine (inserts pts) s0"
  define s11 where "s11 = saveProjectToHistory engine t q s10"
  define hist where "hist = loadProjectHistory engine s10"
  have inv: "mset (persisted s10) = mset (map made pts)"
    unfolding s10_def using h run_inserts [of s0 "[]" pts engine]
    by (simp add: MAX_HISTORY_ITEMS_def)
  have len: "length (persisted s10) = 10"
    using mset_eq_length [OF inv] h by simp
  have e: "entries s10"
    by (rule entries_made [OF inv])
  have fresh: "list_all (\<lambda>x. \<not> has_path q x) (persisted s10)"
    using h by (intro fresh_made [OF inv]) simp
  have st: "persisted s11 = entry q t # butlast hist"
    unfolding s11_def hist_def using h len
    by (intro save_evicts [OF e _ fresh]) (simp_all add: MAX_HISTORY_ITEMS_def)
  have hl: "length hist = 10"
    unfolding hist_def using len by (simp add: length_load [OF e])
  then have ne: "hist \<noteq> []"
    by auto
  have sh: "set hist = set (persisted s10)"
    unfolding hist_def by (rule set_load [OF e])
  have "mset hist = mset (map made pts)"
    unfolding hist_def using inv by (simp add: load_entries [OF e] mset_sort_by)
  then have "distinct hist = distinct (map made pts)"
    by (rule mset_eq_imp_distinct_iff)
  then have "distinct hist"
    using h distinct_made [of pts] by simp
  then have nb: "last hist \<notin> set (butlast hist)"
    using ne by (rule last_not_in_butlast)
  have inl: "last hist \<in> set (persisted s10)"
    using ne sh last_in_set by blast
  then have "\<not> has_path q (last hist)"
    using fresh by (simp add: list_all_iff)
  then have "last hist \<noteq> entry q t"
    by auto
  with nb have gone: "last hist \<notin> set (persisted s11)"
    by (simp add: st)
  have small: "list_all (\<lambda>x. tm (last hist) \<le> tm x) (persisted s10)"
    using last_smallest [OF newest_first_load [OF e, of engine]] sh
    by (simp add: list_all_iff hist_def)
  have "length (persisted s11) = 10"
    using hl by (simp add: st)
  with inv len st inl gone small
  show "let s10 = run engine (inserts pts) s0;
           s11 = saveProjectToHistory engine t q s10;
           oldest = last (loadProjectHistory engine s10)
       in mset (persisted s10) = mset (map made pts)
          \<and> length (persisted s10) = 10
          \<and> persisted s11 = entry q t # butlast (loadProjectHistory engine s10)
          \<and> length (persisted s11) = 10
          \<and> oldest \<in> set (persisted s10)
          \<and> oldest \<notin> set (persisted s11)
          \<and> list_all (\<lambda>x. the (lastUsed_num oldest) \<le> the (lastUsed_num x)) (persisted s10)"
    unfolding Let_def s10_def [symmetric] s11_def [symmetric] hist_def [symmetric]
    by (intro conjI)
qed

theorem capacity_witness:
  "(entries NoItem \<and> length (persisted NoItem) \<le> 10)
   \<and> length (persisted (apply_op (\<lambda>xs. None) Clear NoItem)) \<le> 10
   \<and> (persisted NoItem = [] \<and> length ten_projects = 10 \<and> distinct (map fst ten_projects)
        \<and> list_all (\<lambda>pt. \<not> blank (fst pt)) ten_projects \<and> \<not> blank (js ''/k'')
        \<and> js ''/k'' \<notin> set (map fst ten_projects))
   \<and> (let s10 = run (\<lambda>xs. None) (inserts ten_projects) NoItem;
           s11 = saveProjectToHistory (\<lambda>xs. None) 11 (js ''/k'') s10;
           oldest = last (loadProjectHistory (\<lambda>xs. None) s10)
       in mset (persisted s10) = mset (map made ten_projects)
          \<and> length (persisted s10) = 10
          \<and> persisted s11 = entry (js ''/k'') 11 # butlast (loadProjectHistory (\<lambda>xs. None) s10)
          \<and> length (persisted s11) = 10
          \<and> oldest \<in> set (persisted s10)
          \<and> oldest \<notin> set (persisted s11)
          \<and> list_all (\<lambda>x. the (lastUsed_num oldest) \<le> the (lastUsed_num x)) (persisted s10))
   \<and> last (loadProjectHistory (\<lambda>xs. None) (run (\<lambda>xs. None) (inserts ten_projects) NoItem))
       = entry (js ''/b'') 1"
proof -
  have a0: "entries NoItem \<and> length (persisted NoItem) \<le> 10"
    by (simp add: entries_def)
  have a: "persisted NoItem = [] \<and> length ten_projects = 10 \<and> distinct (map fst ten_projects)
        \<and> list_all (\<lambda>pt. \<not> blank (fst pt)) ten_projects \<and> \<not> blank (js ''/k'')
        \<and> js ''/k'' \<notin> set (map fst ten_projects)"
    by (simp add: ten_projects_def js_def blank_def is_ws_def whitespace_units_def)
  have l: "last (loadProjectHistory (\<lambda>xs. None) (run (\<lambda>xs. None) (inserts ten_projects) NoItem))
       = entry (js ''/b'') 1"
    by code_simp
  note c = capacity [of NoItem "\<lambda>xs. None" Clear NoItem ten_projects "js ''/k''" 11]
  show ?thesis
    by (rule conjI [OF a0 conjI [OF mp [OF conjunct1 [OF c] a0]
          conjI [OF a conjI [OF mp [OF conjunct2 [OF c] a] l]]]])
qed

text \<open>
  C3 as stated, for every persisted content, fails on an array with an element that has
  no \<open>lastUsed\<close>: every comparison with that element gives \<open>NaN\<close>, which
  counts as equal, so a sort that looks for runs by comparing neighbours, as that of V8
  does, finds nothing out of order and returns the array as stored, the entry of time 1
  before the entry of time 3.
\<close>

theorem load_sorted_counterexample:
  "map lastUsed_num
     (loadProjectHistory (\<lambda>xs. Some xs)
       (Json (JArr [entry (js ''/a'') 1,
                    JObj [(js ''path'', JStr (js ''/b'')), (js ''name'', JStr (js ''b''))],
                    entry (js ''/c'') 3])))
     = [Some 1, None, Some 3]
   \<and> \<not> list_all timed
        [entry (js ''/a'') 1,
         JObj [(js ''path'', JStr (js ''/b'')), (js ''name'', JStr (js ''b''))],
         entry (js ''/c'') 3]"
  by (simp add: loadProjectHistory_def load_try_def timed_def lastUsed_num_def item_json_def
      js_def)

text \<open>
  C3, amended. For every store whose array holds timed values only,
  \<open>loadProjectHistory\<close> returns the stored entries, each once, sorted by
  \<open>lastUsed\<close> with the most recent first; the timestamps come out in the same
  sequence for every order in which the same entries are stored.
\<close>

theorem load_sorted:
  assumes "list_all timed (persisted s)"
  shows "list_all timed (loadProjectHistory engine s)
     \<and> sorted_wrt (\<lambda>a b. the (lastUsed_num b) \<le> the (lastUsed_num a)) (loadProjectHistory engine s)
     \<and> mset (loadProjectHistory engine s) = mset (persisted s)
     \<and> (\<forall>ys. mset ys = mset (persisted s) \<longrightarrow>
           map tm (loadProjectHistory engine (Json (JArr ys))) = map tm (loadProjectHistory engine s))"
proof -
  have sorted_load: "newest_first (loadProjectHistory engine t)"
    if "list_all timed (persisted t)" for t
    by (simp add: load_timed [OF that] newest_first_sort_by)
  have "map tm (loadProjectHistory engine (Json (JArr ys))) = map tm (loadProjectHistory engine s)"
    if "mset ys = mset (persisted s)" for ys
  proof -
    have "set ys = set (persisted s)"
      using that by (rule mset_eq_setD)
    with assms have t: "list_all timed (persisted (Json (JArr ys)))"
      by (simp add: list_all_iff)
    have "mset (loadProjectHistory engine (Json (JArr ys))) = mset (loadProjectHistory engine s)"
      using that by (simp add: load_timed [OF t] load_timed [OF assms] mset_sort_by)
    then show ?thesis
      by (intro newest_first_same_times sorted_load t assms)
  qed
  moreover have "mset (loadProjectHistory engine s) = mset (persisted s)"
    by (simp add: load_timed [OF assms] mset_sort_by)
  moreover have "sorted_wrt (\<lambda>a b. tm b \<le> tm a) (loadProjectHistory engine s)"
    using sorted_load [OF assms] by (simp add: newest_first_def)
  moreover have "list_all timed (loadProjectHistory engine s)"
    using assms by (simp add: load_timed [OF assms] list_all_iff set_sort_by)
  ultimately show ?thesis
    by blast
qed

theorem load_sorted_witness:
  "list_all timed
     (persisted (Json (JArr [entry (js ''/a'') 1, entry (js ''/b'') 3, entry (js ''/c'') 2])))
   \<and> loadProjectHistory (\<lambda>xs. None) (Json (JArr [entry (js ''/a'') 1, entry (js ''/b'') 3, entry (js ''/c'') 2]))
       = [entry (js ''/b'') 3, entry (js ''/c'') 2, entry (js ''/a'') 1]
   \<and> sorted_wrt (\<lambda>a b. the (lastUsed_num b) \<le> the (lastUsed_num a))
        [entry (js ''/b'') 3, entry (js ''/c'') 2, entry (js ''/a'') 1]"
proof -
  let ?s = "Json (JArr [entry (js ''/a'') 1, entry (js ''/b'') 3, entry (js ''/c'') 2])"
  have e: "list_all timed (persisted ?s)"
    by simp
  have l: "loadProjectHistory (\<lambda>xs. None) ?s = [entry (js ''/b'') 3, entry (js ''/c'') 2, entry (js ''/a'') 1]"
    by (simp add: load_timed [OF e] sort_by_def compare_def)
  have "sorted_wrt (\<lambda>a b. the (lastUsed_num b) \<le> the (lastUsed_num a))
      (loadProjectHistory (\<lambda>xs. None) ?s)"
    by (rule conjunct1 [OF conjunct2 [OF load_sorted [OF e]]])
  then have srt: "sorted_wrt (\<lambda>a b. the (lastUsed_num b) \<le> the (lastUsed_num a))
      [entry (js ''/b'') 3, entry (js ''/c'') 2, entry (js ''/a'') 1]"
    by (simp only: l)
  show ?thesis
    by (rule conjI [OF e conjI [OF l srt]])
qed

text \<open>
  C4 as stated fails: an array whose only element is an object with a \<open>lastUsed\<close> but
  neither \<open>path\<close> nor \<open>name\<close> is not an array of valid entries, and
  \<open>loadProjectHistory\<close> returns it, since the cast to the item type checks nothing.
\<close>

theorem load_malformed_counterexample:
  "malformed (Json (JArr [JObj [(js ''lastUsed'', JNum 1)]]))
   \<and> loadProjectHistory (\<lambda>xs. None) (Json (JArr [JObj [(js ''lastUsed'', JNum 1)]])) \<noteq> []"
  by (simp add: valid_entry_def loadProjectHistory_def load_try_def timed_def lastUsed_num_def
      sort_by_def js_def)

text \<open>
  C4, amended. For content that is absent, empty, rejected by the parser, or parsed to a
  value that is no array, \<open>loadProjectHistory\<close> returns the empty sequence; and every
  error raised inside its \<open>try\<close> ends in the empty sequence, never at the caller.
\<close>

theorem load_no_array:
  "(no_array s \<longrightarrow> loadProjectHistory engine s = [])
   \<and> (load_try engine s = Inl e \<longrightarrow> loadProjectHistory engine s = [])"
proof -
  have "loadProjectHistory engine s = []" if "no_array s"
  proof (cases s)
    case (Json v)
    with that show ?thesis
      by (cases v) (simp_all add: loadProjectHistory_def load_try_def)
  qed (simp_all add: loadProjectHistory_def load_try_def)
  then show ?thesis by (simp add: loadProjectHistory_def)
qed

theorem load_no_array_witness:
  "no_array (Json (JObj [(js ''path'', JStr (js ''/a''))]))
   \<and> loadProjectHistory (\<lambda>xs. None) (Json (JObj [(js ''path'', JStr (js ''/a''))])) = []
   \<and> load_try (\<lambda>xs. None) BadText = Inl SyntaxError
   \<and> loadProjectHistory (\<lambda>xs. None) BadText = []"
  using load_no_array [of "Json (JObj [(js ''path'', JStr (js ''/a''))])" "\<lambda>xs. None" SyntaxError]
    load_no_array [of BadText "\<lambda>xs. None" SyntaxError]
  by (simp add: load_try_def)




text \<open>
  C6. \<open>getMostRecentProject\<close> returns \<open>null\<close> when the loaded history is
  empty and the path of its first entry otherwise. After saving a path \<open>a\<close> and then
  a different path \<open>b\<close> at a time no earlier into an empty store, it returns
  \<open>b\<close>; after removing \<open>b\<close> it returns \<open>a\<close>.
\<close>

theorem most_recent:
  "(loadProjectHistory engine s = [] \<longrightarrow> getMostRecentProject engine s = Inr (Some JNull))
   \<and> (\<forall>it rest. loadProjectHistory engine s = item_json it # rest \<longrightarrow>
         getMostRecentProject engine s = Inr (Some (JStr (path it))))
   \<and> (persisted s = [] \<and> \<not> blank a \<and> \<not> blank b \<and> a \<noteq> b \<and> t1 \<le> t2 \<longrightarrow>
         getMostRecentProject engine
           (saveProjectToHistory engine t2 b (saveProjectToHistory engine t1 a s))
           = Inr (Some (JStr b))
       \<and> getMostRecentProject engine
           (removeProjectFromHistory engine b
             (saveProjectToHistory engine t2 b (saveProjectToHistory engine t1 a s)))
           = Inr (Some (JStr a)))"
proof (intro conjI allI impI)
  show "getMostRecentProject engine s = Inr (Some JNull)"
    if "loadProjectHistory engine s = []"
    using that by (simp add: getMostRecentProject_def)
next
  fix it rest
  assume "loadProjectHistory engine s = item_json it # rest"
  then show "getMostRecentProject engine s = Inr (Some (JStr (path it)))"
    by (simp add: getMostRecentProject_def item_json_def)
next
  assume h: "persisted s = [] \<and> \<not> blank a \<and> \<not> blank b \<and> a \<noteq> b \<and> t1 \<le> t2"
  let ?s1 = "saveProjectToHistory engine t1 a s"
  let ?s2 = "saveProjectToHistory engine t2 b ?s1"
  have s1: "?s1 = Json (JArr [entry a t1])"
    using h by (simp add: first_of_single_save)
  have e1: "entries ?s1"
    by (simp add: s1 entries_def)
  have l1: "loadProjectHistory engine ?s1 = [entry a t1]"
    by (simp add: load_entries [OF e1]) (simp add: s1 sort_by_def)
  have l2: "loadProjectHistory engine ?s2 = [entry b t2, entry a t1]"
    using h by (simp add: load_save [OF e1] l1 MAX_HISTORY_ITEMS_def)
  show "getMostRecentProject engine ?s2 = Inr (Some (JStr b))"
    by (simp add: getMostRecentProject_def l2 item_json_def)
  have "loadProjectHistory engine (removeProjectFromHistory engine b ?s2) = [entry a t1]"
    using h by (simp add: load_remove [OF entries_save [OF e1]] l2)
  then show "getMostRecentProject engine (removeProjectFromHistory engine b ?s2)
      = Inr (Some (JStr a))"
    by (simp add: getMostRecentProject_def item_json_def)
qed

theorem most_recent_witness:
  "loadProjectHistory (\<lambda>xs. None) NoItem = []
   \<and> getMostRecentProject (\<lambda>xs. None) NoItem = Inr (Some JNull)
   \<and> getMostRecentProject (\<lambda>xs. None)
        (saveProjectToHistory (\<lambda>xs. None) 2 (js ''/b'') (saveProjectToHistory (\<lambda>xs. None) 1 (js ''/a'') NoItem))
        = Inr (Some (JStr (js ''/b'')))
   \<and> getMostRecentProject (\<lambda>xs. None)
        (removeProjectFromHistory (\<lambda>xs. None) (js ''/b'')
          (saveProjectToHistory (\<lambda>xs. None) 2 (js ''/b'') (saveProjectToHistory (\<lambda>xs. None) 1 (js ''/a'') NoItem)))
        = Inr (Some (JStr (js ''/a'')))"
proof -
  have b: "\<not> blank (js ''/a'')" "\<not> blank (js ''/b'')" "js ''/a'' \<noteq> js ''/b''"
    by (simp_all add: blank_def js_def is_ws_def whitespace_units_def)
  have l: "loadProjectHistory (\<lambda>xs. None) NoItem = []"
    by (simp add: loadProjectHistory_def load_try_def)
  show ?thesis
    using most_recent [of "\<lambda>xs. None" NoItem "js ''/a''" "js ''/b''" 1 2] b l by simp
qed

text \<open>
  C7. For every content of the store and every path that is empty or consists of white
  space only, \<open>saveProjectToHistory\<close> leaves the store exactly as it was.
\<close>

theorem save_blank_noop:
  "p = [] \<or> (\<forall>c \<in> set p. is_ws c) \<Longrightarrow> saveProjectToHistory engine now p s = s"
  using save_blank [of p engine now s] by (auto simp: blank_def list_all_iff)

theorem save_blank_noop_witness:
  "([0x20, 0x09, 0xFEFF] = [] \<or> (\<forall>c \<in> set [0x20, 0x09, 0xFEFF]. is_ws c))
   \<and> saveProjectToHistory (\<lambda>xs. None) 7 [0x20, 0x09, 0xFEFF] (Json (JArr [JNull])) = Json (JArr [JNull])"
  using save_blank_noop [of "[0x20, 0x09, 0xFEFF]" "\<lambda>xs. None" 7 "Json (JArr [JNull])"]
  by (simp add: is_ws_def whitespace_units_def)

text \<open>
  C8. For every path the name is the last of the non-empty pieces that splitting at the
  slash gives, and the label \<open>Unknown Project\<close> when there is none; it is the last
  run of code units other than the slash. \<open>/Users/alice/projects/demo\<close> gives
  \<open>demo\<close>, and \<open>/\<close> and the empty string give \<open>Unknown Project\<close>.
\<close>

theorem project_name:
  "getProjectName p = derive_name p
   \<and> getProjectName p =
       (if last_segment slash p = [] then js ''Unknown Project'' else last_segment slash p)
   \<and> getProjectName (js ''/Users/alice/projects/demo'') = js ''demo''
   \<and> getProjectName (js ''/'') = js ''Unknown Project''
   \<and> getProjectName [] = js ''Unknown Project''"
proof -
  have "getProjectName (js ''/Users/alice/projects/demo'') = js ''demo''"
    by (simp add: getProjectName_def at_def js_def slash_def)
  moreover have "getProjectName (js ''/'') = js ''Unknown Project''"
    by (simp add: getProjectName_def at_def js_def slash_def)
  moreover have "getProjectName [] = js ''Unknown Project''"
    by (simp add: getProjectName_def at_def)
  ultimately show ?thesis
    using name_derive [of p] name_last_segment [of p] by simp
qed

text \<open>
  C9. The two Unix branches of \<open>formatPath\<close> test the user name and leave
  \<open>/Users/\<close> and \<open>/home/\<close>, which have none, as they are. The Windows
  branch tests the number of pieces, which is above two whenever the pattern matched, so
  the path made of the drive \<open>C:\<close>, a backslash, \<open>Users\<close> and a
  backslash, which has no user name either, is shown as \<open>~\<close>.
\<close>

theorem formatPath_empty_user:
  "formatPath (js ''C:'' @ [backslash] @ js ''Users'' @ [backslash]) = js ''~''
   \<and> formatPath (js ''/Users/'') = js ''/Users/''
   \<and> formatPath (js ''/home/'') = js ''/home/''"
  by (simp add: formatPath_def js_def slash_def backslash_def at_def startsWith_def
      drive_users_def)

text \<open>
  C10. For a store of entries and a path with a code unit that is no white space,
  \<open>saveProjectToHistory\<close> writes an entry in front whose \<open>path\<close> is the
  path as given. When trimming would change the path, an entry stored under the trimmed
  path is another entry: it is kept (with room in the store) beside the new one.
\<close>

theorem save_verbatim:
  assumes "entries s" and "\<exists>c \<in> set p. \<not> is_ws c"
  shows "(\<exists>rest. persisted (saveProjectToHistory engine now p s)
            = item_json \<lparr>path = p, lastUsed = now, name = getProjectName p\<rparr> # rest)
     \<and> property (js ''path'') (hd (persisted (saveProjectToHistory engine now p s)))
          = Inr (Some (JStr p))
     \<and> (trim p \<noteq> p \<and> x \<in> set (persisted s) \<and> has_path (trim p) x
          \<and> length (persisted s) < 10 \<longrightarrow>
          x \<in> set (persisted (saveProjectToHistory engine now p s))
          \<and> x \<noteq> hd (persisted (saveProjectToHistory engine now p s)))"
proof -
  let ?kept = "filter (\<lambda>x. \<not> has_path p x) (loadProjectHistory engine s)"
  have nb: "\<not> blank p"
    using assms(2) by (auto simp: blank_def list_all_iff)
  have st: "persisted (saveProjectToHistory engine now p s)
      = entry p now # take (MAX_HISTORY_ITEMS - 1) ?kept"
    by (simp add: save_entries [OF assms(1) nb] MAX_HISTORY_ITEMS_def)
  have keep: "x \<in> set (take (MAX_HISTORY_ITEMS - 1) ?kept) \<and> x \<noteq> entry p now"
    if "trim p \<noteq> p" and "x \<in> set (persisted s)" and "has_path (trim p) x"
      and "length (persisted s) < 10"
  proof -
    have np: "\<not> has_path p x"
      using that(1,3) by (rule not_has_path_other)
    then have "x \<in> set ?kept"
      using that(2) by (simp add: set_load [OF assms(1)])
    moreover have "length ?kept \<le> length (persisted s)"
      using length_filter_le [of _ "loadProjectHistory engine s"]
      by (simp add: length_load [OF assms(1)])
    then have "take (MAX_HISTORY_ITEMS - 1) ?kept = ?kept"
      using that(4) by (simp add: MAX_HISTORY_ITEMS_def)
    ultimately show ?thesis
      using np by auto
  qed
  show ?thesis
    unfolding st using keep by (simp add: item_json_def)
qed

theorem save_verbatim_witness:
  "entries (Json (JArr [entry (js ''/a'') 1]))
   \<and> (\<exists>c \<in> set (js '' /a''). \<not> is_ws c)
   \<and> (trim (js '' /a'') \<noteq> js '' /a''
        \<and> entry (js ''/a'') 1 \<in> set (persisted (Json (JArr [entry (js ''/a'') 1])))
        \<and> has_path (trim (js '' /a'')) (entry (js ''/a'') 1)
        \<and> length (persisted (Json (JArr [entry (js ''/a'') 1]))) < 10)
   \<and> property (js ''path'')
        (hd (persisted (saveProjectToHistory (\<lambda>xs. None) 2 (js '' /a'') (Json (JArr [entry (js ''/a'') 1])))))
        = Inr (Some (JStr (js '' /a'')))
   \<and> entry (js ''/a'') 1
        \<in> set (persisted (saveProjectToHistory (\<lambda>xs. None) 2 (js '' /a'') (Json (JArr [entry (js ''/a'') 1]))))
   \<and> entry (js ''/a'') 1
        \<noteq> hd (persisted (saveProjectToHistory (\<lambda>xs. None) 2 (js '' /a'') (Json (JArr [entry (js ''/a'') 1]))))"
proof -
  have h1: "entries (Json (JArr [entry (js ''/a'') 1]))"
    by (simp add: entries_def)
  have h2: "\<exists>c \<in> set (js '' /a''). \<not> is_ws c"
    by (simp add: js_def is_ws_def whitespace_units_def)
  have h3: "trim (js '' /a'') \<noteq> js '' /a''
        \<and> entry (js ''/a'') 1 \<in> set (persisted (Json (JArr [entry (js ''/a'') 1])))
        \<and> has_path (trim (js '' /a'')) (entry (js ''/a'') 1)
        \<and> length (persisted (Json (JArr [entry (js ''/a'') 1]))) < 10"
    by (simp add: trim_def js_def is_ws_def whitespace_units_def)
  note c = save_verbatim [OF h1 h2, where x = "entry (js ''/a'') 1" and engine = "\<lambda>xs. None"
      and now = 2]
  have c3: "entry (js ''/a'') 1
        \<in> set (persisted (saveProjectToHistory (\<lambda>xs. None) 2 (js '' /a'') (Json (JArr [entry (js ''/a'') 1]))))
   \<and> entry (js ''/a'') 1
        \<noteq> hd (persisted (saveProjectToHistory (\<lambda>xs. None) 2 (js '' /a'') (Json (JArr [entry (js ''/a'') 1]))))"
    by (rule mp [OF conjunct2 [OF conjunct2 [OF c]] h3])
  show ?thesis
    by (rule conjI [OF h1 conjI [OF h2 conjI [OF h3 conjI [OF conjunct1 [OF conjunct2 [OF c]] c3]]]])
qed

end
